theory Spec2Isabelle
  imports
    Main
    "HOL-Library.Char_ord"
    "HOL-Library.List_Lexorder"
    "HOL-Library.Multiset"
    "HOL-Library.Word"
begin

section \<open>The vocabulary index generator (.github/scripts/generate_index.py)\<close>

text \<open>
  The script walks the repository, reads every \<^verbatim>\<open>*.json\<close> file outside a fixed set of
  directories, and writes one CSV row per file it could read. This theory embeds its four
  functions, \<^verbatim>\<open>should_exclude_path\<close>, \<^verbatim>\<open>find_json_files\<close>, \<^verbatim>\<open>extract_metadata\<close> and
  \<^verbatim>\<open>generate_index\<close>, together with the parts of \<^verbatim>\<open>pathlib\<close>, \<^verbatim>\<open>json\<close> and \<^verbatim>\<open>csv\<close> they call.

  Python strings are modelled as \<^typ>\<open>string\<close>, holding the UTF-8 bytes of the text: comparing
  byte lists lexicographically orders them as Python orders strings by code point.
\<close>

subsection \<open>Python values and exceptions\<close>

text \<open>The values \<^verbatim>\<open>json.load\<close> returns. A float is its IEEE 754 binary64 bit pattern; a dict
  is an association list in insertion order, read with \<^const>\<open>map_of\<close>.\<close>

datatype json =
    JNull
  | JBool bool
  | JInt int
  | JFloat "64 word"
  | JStr string
  | JList "json list"
  | JDict "(string \<times> json) list"

type_synonym pydict = "(string \<times> json) list"

text \<open>The exception classes that matter to the handler of \<^verbatim>\<open>extract_metadata\<close>.
  \<open>OSError\<close> (whose alias is \<^verbatim>\<open>IOError\<close>) stands for itself and its subclasses
  (FileNotFoundError, PermissionError, IsADirectoryError). JSONDecodeError and
  UnicodeDecodeError are both subclasses of ValueError, and neither is a subclass of the other.
  An exception carries the text \<^verbatim>\<open>str(e)\<close>.\<close>

datatype exc_class =
    OSError
  | JSONDecodeError
  | UnicodeDecodeError
  | ValueError
  | AttributeError
  | OverflowError
  | RecursionError

datatype py_exception = Exception exc_class string

fun exc_str :: "py_exception \<Rightarrow> string" where
  "exc_str (Exception c msg) = msg"

text \<open>\<^verbatim>\<open>except (json.JSONDecodeError, IOError) as e\<close>\<close>

fun is_caught :: "py_exception \<Rightarrow> bool" where
  "is_caught (Exception c msg) = (c = JSONDecodeError \<or> c = OSError)"

fun type_name :: "json \<Rightarrow> string" where
  "type_name JNull = ''NoneType''"
| "type_name (JBool b) = ''bool''"
| "type_name (JInt i) = ''int''"
| "type_name (JFloat w) = ''float''"
| "type_name (JStr s) = ''str''"
| "type_name (JList xs) = ''list''"
| "type_name (JDict d) = ''dict''"

definition quoted :: "string \<Rightarrow> string" where
  \<comment> \<open>\<^verbatim>\<open>repr\<close> of a string that holds no quote, backslash or control character\<close>
  "quoted s = [CHR 0x27] @ s @ [CHR 0x27]"

text \<open>\<^verbatim>\<open>data.get(key, default)\<close>: a dict answers; any other value has no attribute \<^verbatim>\<open>get\<close>.\<close>

definition dict_get :: "pydict \<Rightarrow> string \<Rightarrow> json \<Rightarrow> json" where
  "dict_get d k dflt = (case map_of d k of None \<Rightarrow> dflt | Some v \<Rightarrow> v)"

definition no_attribute_get :: "json \<Rightarrow> py_exception" where
  "no_attribute_get v =
     Exception AttributeError (quoted (type_name v) @ '' object has no attribute '' @ quoted ''get'')"

subsection \<open>Paths (pathlib)\<close>

text \<open>A path is its anchor (drive and root: \<^verbatim>\<open>/\<close> on POSIX, \<^verbatim>\<open>C:\\<close> on Windows, empty when the
  path is relative) and the components after it. The flavour decides the separator that
  \<^verbatim>\<open>str\<close> writes and whether names are compared with their case folded. On Windows the
  folding is modelled for ASCII letters. The operations follow \<^verbatim>\<open>pathlib\<close> as it is in
  CPython 3.10 to 3.13 (the script's annotation \<^verbatim>\<open>dict|None\<close> needs 3.10).\<close>

datatype flavour = Posix | Windows

record path =
  anchor :: string
  tail :: "string list"

fun sep :: "flavour \<Rightarrow> char" where
  "sep Posix = CHR ''/''"
| "sep Windows = CHR 0x5C"

fun altsep :: "flavour \<Rightarrow> char option" where
  "altsep Posix = None"
| "altsep Windows = Some CHR ''/''"

definition lower_char :: "char \<Rightarrow> char" where
  "lower_char c =
     (if CHR ''A'' \<le> c \<and> c \<le> CHR ''Z'' then char_of (of_char c + (32::nat)) else c)"

fun normcase :: "flavour \<Rightarrow> string \<Rightarrow> string" where
  "normcase Posix s = s"
| "normcase Windows s = map lower_char s"

definition parts :: "path \<Rightarrow> string list" where
  "parts p = (if anchor p = [] then [] else [anchor p]) @ tail p"

definition name :: "path \<Rightarrow> string" where
  "name p = (if tail p = [] then [] else last (tail p))"

fun join :: "char \<Rightarrow> string list \<Rightarrow> string" where
  "join c [] = []"
| "join c [x] = x"
| "join c (x # y # ys) = x @ [c] @ join c (y # ys)"

definition str :: "flavour \<Rightarrow> path \<Rightarrow> string" where
  "str fl p = (let s = anchor p @ join (sep fl) (tail p) in if s = [] then ''.'' else s)"

definition joinpath :: "path \<Rightarrow> string list \<Rightarrow> path" where
  \<comment> \<open>\<^verbatim>\<open>root / a / b\<close> for plain names\<close>
  "joinpath p rel = p\<lparr>tail := tail p @ rel\<rparr>"

text \<open>\<^verbatim>\<open>name.rfind('.')\<close>: the index of the last occurrence, -1 when there is none.\<close>

fun rfind :: "char \<Rightarrow> string \<Rightarrow> int" where
  "rfind c [] = - 1"
| "rfind c (x # xs) =
     (let r = rfind c xs in if 0 \<le> r then r + 1 else if x = c then 0 else - 1)"

definition suffix :: "path \<Rightarrow> string" where
  "suffix p =
     (let n = name p; i = rfind CHR ''.'' n
      in if 0 < i \<and> i < int (length n) - 1 then drop (nat i) n else [])"

text \<open>\<^verbatim>\<open>Path.stem\<close>, the name without its suffix: what \<^verbatim>\<open>with_suffix('')\<close> leaves of the name.\<close>

definition stem :: "path \<Rightarrow> string" where
  "stem p =
     (let n = name p; i = rfind CHR ''.'' n
      in if 0 < i \<and> i < int (length n) - 1 then take (nat i) n else n)"

definition with_suffix :: "flavour \<Rightarrow> path \<Rightarrow> string \<Rightarrow> py_exception + path" where
  "with_suffix fl p sfx =
     (if sep fl \<in> set sfx \<or> (case altsep fl of None \<Rightarrow> False | Some a \<Rightarrow> a \<in> set sfx)
      then Inl (Exception ValueError (''Invalid suffix '' @ quoted sfx))
      else if (sfx \<noteq> [] \<and> hd sfx \<noteq> CHR ''.'') \<or> sfx = ''.''
      then Inl (Exception ValueError (''Invalid suffix '' @ quoted sfx))
      else if name p = []
      then Inl (Exception ValueError (quoted (str fl p) @ '' has an empty name''))
      else
        let old = suffix p;
            n = (if old = [] then name p @ sfx
                 else take (length (name p) - length old) (name p) @ sfx)
        in Inr (p\<lparr>tail := butlast (tail p) @ [n]\<rparr>))"

definition relative_to :: "flavour \<Rightarrow> path \<Rightarrow> path \<Rightarrow> py_exception + path" where
  "relative_to fl p other =
     (let k = length (tail other)
      in if normcase fl (anchor p) = normcase fl (anchor other) \<and> k \<le> length (tail p)
            \<and> map (normcase fl) (take k (tail p)) = map (normcase fl) (tail other)
         then Inr \<lparr>anchor = [], tail = drop k (tail p)\<rparr>
         else Inl (Exception ValueError
                (quoted (str fl p) @ '' is not in the subpath of '' @ quoted (str fl other))))"

text \<open>Paths are ordered by their components, case folded on Windows; \<^verbatim>\<open>sorted\<close> is stable.\<close>

definition path_key :: "flavour \<Rightarrow> path \<Rightarrow> string list" where
  "path_key fl p = map (normcase fl) (parts p)"

definition sorted_paths :: "flavour \<Rightarrow> path list \<Rightarrow> path list" where
  "sorted_paths fl ps = sort_key (path_key fl) ps"

subsection \<open>Globbing\<close>

text \<open>\<^verbatim>\<open>fnmatch\<close> for patterns made of literal characters, \<^verbatim>\<open>*\<close> and \<^verbatim>\<open>?\<close>.\<close>

fun fnmatch :: "string \<Rightarrow> string \<Rightarrow> bool" where
  "fnmatch [] s = (s = [])"
| "fnmatch (p # ps) [] = (p = CHR ''*'' \<and> fnmatch ps [])"
| "fnmatch (p # ps) (c # cs) =
     (if p = CHR ''*'' then fnmatch ps (c # cs) \<or> fnmatch (p # ps) cs
      else (p = CHR ''?'' \<or> p = c) \<and> fnmatch ps cs)"

definition JSON_PATTERN :: string where
  "JSON_PATTERN = ''*.json''"

definition matches :: "flavour \<Rightarrow> string \<Rightarrow> string \<Rightarrow> bool" where
  "matches fl pat n = fnmatch (normcase fl pat) (normcase fl n)"

text \<open>The directory tree below the root, each directory listing its entries in the order the
  operating system enumerates them. \<^verbatim>\<open>rglob\<close> visits every directory below the root and yields
  each entry, file or directory, whose name matches; the order it yields them in is the
  enumeration's, which \<^verbatim>\<open>find_json_files\<close> then sorts.\<close>

datatype entry = File | Dir "(string \<times> entry) list"

fun walk :: "flavour \<Rightarrow> string \<Rightarrow> string list \<Rightarrow> entry \<Rightarrow> string list list" where
  "walk fl pat rel File = []"
| "walk fl pat rel (Dir es) =
     concat (map (\<lambda>(n, e). (if matches fl pat n then [rel @ [n]] else [])
                             @ walk fl pat (rel @ [n]) e) es)"

definition rglob :: "flavour \<Rightarrow> path \<Rightarrow> entry \<Rightarrow> string \<Rightarrow> path list" where
  "rglob fl root tree pat = map (joinpath root) (walk fl pat [] tree)"

subsection \<open>Discovery\<close>

definition EXCLUDE_DIRS :: "string set" where
  "EXCLUDE_DIRS = {''.git'', ''.github'', ''.venv'', ''venv''}"

fun any_excluded :: "string list \<Rightarrow> bool" where
  "any_excluded [] = False"
| "any_excluded (part # rest) = (if part \<in> EXCLUDE_DIRS then True else any_excluded rest)"

definition should_exclude_path :: "path \<Rightarrow> bool" where
  "should_exclude_path p = any_excluded (parts p)"

definition find_json_files :: "flavour \<Rightarrow> path \<Rightarrow> entry \<Rightarrow> path list" where
  "find_json_files fl root tree =
     sorted_paths fl (filter (\<lambda>json_file. \<not> should_exclude_path json_file)
                        (rglob fl root tree JSON_PATTERN))"

subsection \<open>Reading one file\<close>

text \<open>What the file system answers at a path while the scan runs: the outcome of
  \<^verbatim>\<open>open(json_file, 'r', encoding='utf-8')\<close> followed by \<^verbatim>\<open>json.load(f)\<close> (an OSError when the
  file cannot be opened, a UnicodeDecodeError when its bytes are not UTF-8, a JSONDecodeError
  when the text is not JSON, else the parsed value), and the outcome of
  \<^verbatim>\<open>datetime.fromtimestamp(json_file.stat().st_mtime).isoformat()\<close> (the ISO-8601 text of the
  modification time, or the exception raised).\<close>

record responses =
  load :: "py_exception + json"
  mod_time :: "py_exception + string"

text \<open>The body of the \<^verbatim>\<open>try\<close> block, statement by statement; the first exception ends it.\<close>

definition try_extract ::
  "flavour \<Rightarrow> path \<Rightarrow> (path \<Rightarrow> responses) \<Rightarrow> path \<Rightarrow> py_exception + pydict" where
  "try_extract fl REPO_ROOT fs json_file =
     (case load (fs json_file) of
        Inl e \<Rightarrow> Inl e
      | Inr data \<Rightarrow>
          (case relative_to fl json_file REPO_ROOT of
             Inl e \<Rightarrow> Inl e
           | Inr relative_path \<Rightarrow>
               (case with_suffix fl relative_path [] of
                  Inl e \<Rightarrow> Inl e
                | Inr stripped \<Rightarrow>
                    (let file_id = str fl stripped in
                     case mod_time (fs json_file) of
                       Inl e \<Rightarrow> Inl e
                     | Inr mtime \<Rightarrow>
                         (case data of
                            JDict d \<Rightarrow>
                              Inr [(''id'', JStr file_id),
                                   (''filename'', JStr (name json_file)),
                                   (''url'', dict_get d ''url'' (JStr [])),
                                   (''label'', dict_get d ''label'' (JStr [])),
                                   (''namespaceUri'', dict_get d ''namespaceUri'' (JStr [])),
                                   (''prefix'', dict_get d ''prefix'' (JStr [])),
                                   (''format'', dict_get d ''format'' (JStr [])),
                                   (''comment'', dict_get d ''comment'' (JStr [])),
                                   (''last_modified'', JStr mtime)]
                          | _ \<Rightarrow> Inl (no_attribute_get data))))))"

text \<open>The function returns what it printed and either the exception it let through or its
  return value: a dict, or \<^verbatim>\<open>None\<close>.\<close>

definition extract_metadata ::
  "flavour \<Rightarrow> path \<Rightarrow> (path \<Rightarrow> responses) \<Rightarrow> path
     \<Rightarrow> string list \<times> (py_exception + pydict option)" where
  "extract_metadata fl REPO_ROOT fs json_file =
     (case try_extract fl REPO_ROOT fs json_file of
        Inr metadata \<Rightarrow> ([], Inr (Some metadata))
      | Inl e \<Rightarrow>
          if is_caught e
          then ([''Warning: Could not read '' @ str fl json_file @ '': '' @ exc_str e], Inr None)
          else ([], Inl e))"

subsection \<open>Writing the index\<close>

definition CSV_HEADERS :: "string list" where
  "CSV_HEADERS = [''id'', ''filename'', ''url'', ''label'', ''namespaceUri'', ''prefix'',
                  ''format'', ''comment'', ''last_modified'']"

text \<open>\<^verbatim>\<open>csv.DictWriter\<close> with its defaults (\<^verbatim>\<open>restval=''\<close>, \<^verbatim>\<open>extrasaction='raise'\<close>) turns a dict
  into the list of its values in the order of the field names, and refuses a dict with a key
  that is no field name. The CSV file is modelled as the rows handed to the underlying
  \<^verbatim>\<open>csv.writer\<close>, header first; their quoting and encoding are the writer's.\<close>

definition dict_to_list :: "string list \<Rightarrow> pydict \<Rightarrow> py_exception + json list" where
  "dict_to_list fieldnames rowdict =
     (if \<exists>k \<in> set (map fst rowdict). k \<notin> set fieldnames
      then Inl (Exception ValueError ''dict contains fields not in fieldnames'')
      else Inr (map (\<lambda>key. dict_get rowdict key (JStr [])) fieldnames))"

definition header_row :: "string list \<Rightarrow> json list" where
  "header_row fieldnames = map JStr fieldnames"

fun writerows :: "string list \<Rightarrow> pydict list \<Rightarrow> json list list \<times> py_exception option" where
  "writerows fieldnames [] = ([], None)"
| "writerows fieldnames (d # ds) =
     (case dict_to_list fieldnames d of
        Inl e \<Rightarrow> ([], Some e)
      | Inr row \<Rightarrow> (case writerows fieldnames ds of (rows, r) \<Rightarrow> (row # rows, r)))"

text \<open>\<^verbatim>\<open>str(n)\<close> for \<^verbatim>\<open>len(records)\<close>.\<close>

fun str_nat :: "nat \<Rightarrow> string" where
  "str_nat n =
     (if n < 10 then [char_of (48 + n)] else str_nat (n div 10) @ [char_of (48 + n mod 10)])"

declare str_nat.simps [simp del]

definition check_mark :: string where
  \<comment> \<open>U+2713 in UTF-8\<close>
  "check_mark = [CHR 0xE2, CHR 0x9C, CHR 0x93]"

text \<open>The loop over the discovered files: \<^verbatim>\<open>if metadata:\<close> keeps a dict that is not empty.\<close>

fun extract_each ::
  "flavour \<Rightarrow> path \<Rightarrow> (path \<Rightarrow> responses) \<Rightarrow> path list
     \<Rightarrow> string list \<times> (py_exception + pydict list)" where
  "extract_each fl REPO_ROOT fs [] = ([], Inr [])"
| "extract_each fl REPO_ROOT fs (json_file # rest) =
     (case extract_metadata fl REPO_ROOT fs json_file of
        (out, Inl e) \<Rightarrow> (out, Inl e)
      | (out, Inr metadata) \<Rightarrow>
          (case extract_each fl REPO_ROOT fs rest of
             (out', Inl e) \<Rightarrow> (out @ out', Inl e)
           | (out', Inr records) \<Rightarrow>
               (out @ out',
                Inr ((case metadata of
                        None \<Rightarrow> []
                      | Some d \<Rightarrow> if d \<noteq> [] then [d] else []) @ records))))"

text \<open>The world a run sees: the tree below the repository root at scan time, the answers of
  the file system, and whether the output's directory can be made and the output opened for
  writing (\<^verbatim>\<open>None\<close> when the call returns, else the OSError it raises).\<close>

record world =
  tree :: entry
  files :: "path \<Rightarrow> responses"
  mkdir_raises :: "py_exception option"
  open_raises :: "py_exception option"

text \<open>What a run leaves behind: the lines printed, the rows of the output file (\<^verbatim>\<open>None\<close> when
  the file was never opened for writing), and the exception that ended the run, if any.\<close>

record run =
  stdout :: "string list"
  csvfile :: "json list list option"
  raised :: "py_exception option"

definition generate_index :: "flavour \<Rightarrow> path \<Rightarrow> world \<Rightarrow> path \<Rightarrow> run" where
  "generate_index fl REPO_ROOT w output_file =
     (case mkdir_raises w of
        Some e \<Rightarrow> \<lparr>stdout = [], csvfile = None, raised = Some e\<rparr>
      | None \<Rightarrow>
          (let json_files = find_json_files fl REPO_ROOT (tree w);
               notice = (if json_files = [] then [''No JSON files found to index.''] else [])
           in case extract_each fl REPO_ROOT (files w) json_files of
                (out, Inl e) \<Rightarrow> \<lparr>stdout = notice @ out, csvfile = None, raised = Some e\<rparr>
              | (out, Inr records) \<Rightarrow>
                  (case open_raises w of
                     Some e \<Rightarrow> \<lparr>stdout = notice @ out, csvfile = None, raised = Some e\<rparr>
                   | None \<Rightarrow>
                       (case writerows CSV_HEADERS records of
                          (rows, Some e) \<Rightarrow>
                            \<lparr>stdout = notice @ out,
                             csvfile = Some (header_row CSV_HEADERS # rows),
                             raised = Some e\<rparr>
                        | (rows, None) \<Rightarrow>
                            \<lparr>stdout = notice @ out @
                               [check_mark @ '' Generated index with '' @ str_nat (length records)
                                  @ '' vocabulary configuration(s)'',
                                check_mark @ '' Index saved to: '' @ str fl output_file],
                             csvfile = Some (header_row CSV_HEADERS # rows),
                             raised = None\<rparr>))))"

subsection \<open>A sample repository\<close>

text \<open>Two vocabulary files, \<^verbatim>\<open>a/voc.json\<close> holding \<^verbatim>\<open>{"label": "A"}\<close> and \<^verbatim>\<open>b/voc.json\<close> holding
  \<^verbatim>\<open>{"label": "B"}\<close>, beside a workflow directory and a virtual environment; the operating
  system lists \<^verbatim>\<open>b\<close> before \<^verbatim>\<open>a\<close>.\<close>

definition sample_root :: path where
  "sample_root = \<lparr>anchor = ''/'', tail = [''srv'', ''vocabularies'']\<rparr>"

definition sample_tree :: entry where
  "sample_tree =
     Dir [(''b'', Dir [(''voc.json'', File)]),
          (''a'', Dir [(''voc.json'', File)]),
          (''.github'', Dir [(''workflows'', Dir [(''matrix.json'', File)])]),
          (''venv'', Dir [(''lib'', Dir [(''pkg.json'', File)])]),
          (''README.md'', File)]"

definition sample_tree_reordered :: entry where
  "sample_tree_reordered =
     Dir [(''README.md'', File),
          (''a'', Dir [(''voc.json'', File)]),
          (''venv'', Dir [(''lib'', Dir [(''pkg.json'', File)])]),
          (''.github'', Dir [(''workflows'', Dir [(''matrix.json'', File)])]),
          (''b'', Dir [(''voc.json'', File)])]"

definition voc_a :: path where
  "voc_a = \<lparr>anchor = ''/'', tail = [''srv'', ''vocabularies'', ''a'', ''voc.json'']\<rparr>"

definition voc_b :: path where
  "voc_b = \<lparr>anchor = ''/'', tail = [''srv'', ''vocabularies'', ''b'', ''voc.json'']\<rparr>"

definition venv_pkg :: path where
  "venv_pkg = \<lparr>anchor = ''/'', tail = [''srv'', ''vocabularies'', ''venv'', ''lib'', ''pkg.json'']\<rparr>"

definition missing :: responses where
  "missing = \<lparr>load = Inl (Exception OSError ''[Errno 2] No such file or directory''),
              mod_time = Inl (Exception OSError ''[Errno 2] No such file or directory'')\<rparr>"

definition sample_files :: "path \<Rightarrow> responses" where
  "sample_files p =
     (if p = voc_a
      then \<lparr>load = Inr (JDict [(''label'', JStr ''A'')]), mod_time = Inr ''2024-05-01T10:00:00''\<rparr>
      else if p = voc_b
      then \<lparr>load = Inr (JDict [(''label'', JStr ''B'')]), mod_time = Inr ''2024-05-02T11:30:00''\<rparr>
      else missing)"

definition sample_world :: world where
  "sample_world =
     \<lparr>tree = sample_tree, files = sample_files, mkdir_raises = None, open_raises = None\<rparr>"

definition sample_output :: path where
  "sample_output = \<lparr>anchor = [], tail = [''vocabulary_index.csv'']\<rparr>"




text \<open>The same two files in a checkout on Windows.\<close>

definition win_root :: path where
  "win_root = \<lparr>anchor = [CHR ''C'', CHR '':'', CHR 0x5C], tail = [''vocabularies'']\<rparr>"

definition win_voc_a :: path where
  "win_voc_a = \<lparr>anchor = [CHR ''C'', CHR '':'', CHR 0x5C],
                tail = [''vocabularies'', ''a'', ''voc.json'']\<rparr>"

definition win_files :: "path \<Rightarrow> responses" where
  "win_files p =
     (if p = win_voc_a
      then \<lparr>load = Inr (JDict [(''label'', JStr ''A'')]), mod_time = Inr ''2024-05-01T10:00:00''\<rparr>
      else missing)"

text \<open>Variants of the sample in which \<^verbatim>\<open>a/voc.json\<close> holds something else: a JSON array, the
  JSON value \<^verbatim>\<open>null\<close>, an object whose \<^verbatim>\<open>url\<close> is a number, an empty object, and bytes that
  are not UTF-8 (a lone byte \<^verbatim>\<open>0xff\<close>).\<close>

definition holding :: "py_exception + json \<Rightarrow> path \<Rightarrow> responses" where
  "holding content p =
     (if p = voc_a then \<lparr>load = content, mod_time = Inr ''2024-05-01T10:00:00''\<rparr>
      else sample_files p)"

definition not_utf8 :: py_exception where
  "not_utf8 =
     Exception UnicodeDecodeError
       (quoted ''utf-8'' @ '' codec can'' @ [CHR 0x27]
          @ ''t decode byte 0xff in position 0: invalid start byte'')"

text \<open>Two answers of the file system that differ at most in the modification time they
  report, and the sample files after both were touched.\<close>

definition same_but_mtime :: "responses \<Rightarrow> responses \<Rightarrow> bool" where
  "same_but_mtime a b =
     (load a = load b
      \<and> (case mod_time a of
            Inl e \<Rightarrow> mod_time b = Inl e
          | Inr t \<Rightarrow> (case mod_time b of Inl e \<Rightarrow> False | Inr t' \<Rightarrow> True)))"

definition sample_files_touched :: "path \<Rightarrow> responses" where
  "sample_files_touched p =
     (if p = voc_a
      then \<lparr>load = Inr (JDict [(''label'', JStr ''A'')]), mod_time = Inr ''2024-06-10T08:15:00''\<rparr>
      else if p = voc_b
      then \<lparr>load = Inr (JDict [(''label'', JStr ''B'')]), mod_time = Inr ''2024-06-11T09:00:00''\<rparr>
      else missing)"

section \<open>Properties\<close>

subsection \<open>Paths, patterns and the walk\<close>

lemma any_excluded_iff: "any_excluded ps \<longleftrightarrow> (\<exists>part \<in> set ps. part \<in> EXCLUDE_DIRS)"
  by (induction ps) auto

lemma parts_joinpath: "parts (joinpath root rel) = parts root @ rel"
  by (simp add: parts_def joinpath_def)

lemma name_joinpath: "rel \<noteq> [] \<Longrightarrow> name (joinpath root rel) = last rel"
  by (simp add: name_def joinpath_def)

lemma should_exclude_path_iff:
  "should_exclude_path p \<longleftrightarrow> (\<exists>part \<in> set (parts p). part \<in> EXCLUDE_DIRS)"
  by (simp add: should_exclude_path_def any_excluded_iff)

lemma set_find_json_files:
  "set (find_json_files fl root t) =
     {p \<in> set (rglob fl root t JSON_PATTERN). \<not> should_exclude_path p}"
  by (simp add: find_json_files_def sorted_paths_def)

lemma fnmatch_literal_json: "fnmatch ''.json'' s \<longleftrightarrow> s = ''.json''"
proof -
  have lit: "fnmatch (p # ps) s \<longleftrightarrow> (\<exists>cs. s = p # cs \<and> fnmatch ps cs)"
    if "p \<noteq> CHR ''*''" "p \<noteq> CHR ''?''" for p ps s
    using that by (cases s) auto
  show ?thesis by (auto simp: lit)
qed

lemma fnmatch_star_json: "fnmatch ''*.json'' s \<longleftrightarrow> (\<exists>stem. s = stem @ ''.json'')"
proof (induction s)
  case Nil
  show ?case by simp
next
  case (Cons c cs)
  have "fnmatch ''*.json'' (c # cs) \<longleftrightarrow> fnmatch ''.json'' (c # cs) \<or> fnmatch ''*.json'' cs"
    by simp
  also have "\<dots> \<longleftrightarrow> c # cs = ''.json'' \<or> (\<exists>stem. cs = stem @ ''.json'')"
    by (simp only: fnmatch_literal_json Cons.IH)
  also have "\<dots> \<longleftrightarrow> (\<exists>stem. c # cs = stem @ ''.json'')"
    by (auto simp: Cons_eq_append_conv)
  finally show ?case .
qed

lemma normcase_pattern: "normcase fl JSON_PATTERN = ''*.json''"
  by (cases fl) (simp_all add: JSON_PATTERN_def lower_char_def)

lemma matches_json: "matches fl JSON_PATTERN n \<longleftrightarrow> (\<exists>stem. normcase fl n = stem @ ''.json'')"
  by (simp add: matches_def normcase_pattern fnmatch_star_json)

lemma walk_yields:
  "r \<in> set (walk fl pat rel e) \<Longrightarrow> \<exists>xs. r = rel @ xs \<and> xs \<noteq> [] \<and> matches fl pat (last xs)"
proof (induction fl pat rel e arbitrary: r rule: walk.induct)
  case (1 fl pat rel)
  then show ?case by simp
next
  case (2 fl pat rel es)
  from "2.prems" obtain n e where ne: "(n, e) \<in> set es"
    and r: "r \<in> set ((if matches fl pat n then [rel @ [n]] else []) @ walk fl pat (rel @ [n]) e)"
    by auto
  show ?case
  proof (cases "r \<in> set (walk fl pat (rel @ [n]) e)")
    case True
    from "2.IH"[OF ne refl True] obtain xs where "r = (rel @ [n]) @ xs" "xs \<noteq> []" "matches fl pat (last xs)"
      by blast
    then show ?thesis by (intro exI[of _ "n # xs"]) simp
  next
    case False
    with r have "matches fl pat n" "r = rel @ [n]" by (auto split: if_splits)
    then show ?thesis by (intro exI[of _ "[n]"]) simp
  qed
qed

lemma rglob_yields:
  assumes "p \<in> set (rglob fl root t pat)"
  shows "\<exists>rel. p = joinpath root rel \<and> rel \<noteq> [] \<and> matches fl pat (last rel)"
proof -
  from assms obtain r where "r \<in> set (walk fl pat [] t)" "p = joinpath root r"
    by (auto simp: rglob_def)
  with walk_yields[of r fl pat "[]" t] show ?thesis by auto
qed

lemma filter_eq_const: "filter (\<lambda>x. k = x) xs = replicate (count (mset xs) k) k"
  by (induction xs) auto

lemma sort_key_mset_inj:
  assumes "mset xs = mset ys" "inj_on f (set xs)"
  shows "sort_key f xs = sort_key f ys"
proof (rule properties_for_sort_key)
  show "mset (sort_key f ys) = mset xs" using assms(1) by simp
  show "sorted (map f (sort_key f ys))" by simp
  fix k assume "k \<in> set (sort_key f ys)"
  then have k: "k \<in> set xs" using assms(1) by (metis set_sort set_mset_mset)
  have sets: "set ys = set xs" using assms(1) by (metis set_mset_mset)
  have "filter (\<lambda>x. f k = f x) (sort_key f ys) = filter (\<lambda>x. f k = f x) ys"
    using sort_key_stable[of f "f k" ys] by (simp add: eq_commute)
  also have "\<dots> = filter (\<lambda>x. k = x) ys"
    by (rule filter_cong) (use k sets assms(2) in \<open>auto dest: inj_onD\<close>)
  also have "\<dots> = filter (\<lambda>x. k = x) xs"
    by (simp add: filter_eq_const assms(1))
  also have "\<dots> = filter (\<lambda>x. f k = f x) xs"
    by (rule filter_cong) (use k assms(2) in \<open>auto dest: inj_onD\<close>)
  finally show "filter (\<lambda>x. f k = f x) (sort_key f ys) = filter (\<lambda>x. f k = f x) xs" .
qed

lemma map_normcase_Posix: "map (normcase Posix) xs = xs"
  by (induction xs) simp_all

lemma posix_key_inj: "inj_on (path_key Posix) (set (rglob Posix root t pat))"
proof (rule inj_onI)
  fix p q assume "p \<in> set (rglob Posix root t pat)" "q \<in> set (rglob Posix root t pat)"
    and eq: "path_key Posix p = path_key Posix q"
  then obtain r s where "p = joinpath root r" "q = joinpath root s" by (auto simp: rglob_def)
  with eq show "p = q" by (simp add: path_key_def parts_joinpath map_normcase_Posix)
qed


subsection \<open>Discovery\<close>

text \<open>Claim C3. A path with \<^verbatim>\<open>.git\<close>, \<^verbatim>\<open>.github\<close>, \<^verbatim>\<open>.venv\<close> or \<^verbatim>\<open>venv\<close> among its components, at
  whatever depth, is never in the result of \<^const>\<open>find_json_files\<close>, for every tree, root and
  flavour.\<close>

theorem find_json_files_excludes:
  assumes "part \<in> set (parts p)"
    and "part \<in> {''.git'', ''.github'', ''.venv'', ''venv''}"
  shows "p \<notin> set (find_json_files fl root t)"
  using assms by (auto simp: set_find_json_files should_exclude_path_iff EXCLUDE_DIRS_def)


theorem find_json_files_excludes_witness:
  "''venv'' \<in> set (parts venv_pkg)
   \<and> ''venv'' \<in> {''.git'', ''.github'', ''.venv'', ''venv''}
   \<and> venv_pkg \<in> set (rglob Posix sample_root sample_tree JSON_PATTERN)
   \<and> venv_pkg \<notin> set (find_json_files Posix sample_root sample_tree)"
proof -
  have a: "''venv'' \<in> set (parts venv_pkg)" by code_simp
  have b: "''venv'' \<in> {''.git'', ''.github'', ''.venv'', ''venv''}" by simp
  have c: "venv_pkg \<in> set (rglob Posix sample_root sample_tree JSON_PATTERN)" by code_simp
  from find_json_files_excludes[OF a b]
  have "venv_pkg \<notin> set (find_json_files Posix sample_root sample_tree)" .
  with a b c show ?thesis by blast
qed


text \<open>Claim C4. For every tree the result of \<^const>\<open>find_json_files\<close> is in ascending order of
  the paths, which \<^verbatim>\<open>pathlib\<close> compares component by component (lexicographically on the lists
  of components, each component compared as a string, case folded on Windows); it holds exactly
  the paths \<^verbatim>\<open>rglob\<close> yielded that are not excluded, each with a name ending in \<^verbatim>\<open>.json\<close>; and a
  second enumeration that yields the same paths in another order gives the same list (on
  Windows provided no two yielded paths differ in case only).\<close>

theorem find_json_files_sorted:
  "sorted (map (path_key fl) (find_json_files fl root t))
   \<and> mset (find_json_files fl root t)
       = mset (filter (\<lambda>p. \<not> should_exclude_path p) (rglob fl root t JSON_PATTERN))
   \<and> (\<forall>p \<in> set (find_json_files fl root t). \<exists>stem. normcase fl (name p) = stem @ ''.json'')
   \<and> (\<forall>t'. mset (rglob fl root t' JSON_PATTERN) = mset (rglob fl root t JSON_PATTERN)
            \<and> (fl = Posix \<or> inj_on (path_key fl) (set (rglob fl root t JSON_PATTERN)))
          \<longrightarrow> find_json_files fl root t' = find_json_files fl root t)"
proof (intro conjI allI impI ballI)
  show "sorted (map (path_key fl) (find_json_files fl root t))"
    by (simp add: find_json_files_def sorted_paths_def)
  show "mset (find_json_files fl root t)
       = mset (filter (\<lambda>p. \<not> should_exclude_path p) (rglob fl root t JSON_PATTERN))"
    by (simp add: find_json_files_def sorted_paths_def)
next
  fix p assume "p \<in> set (find_json_files fl root t)"
  then have "p \<in> set (rglob fl root t JSON_PATTERN)" by (simp add: set_find_json_files)
  from rglob_yields[OF this] obtain rel where "p = joinpath root rel" "rel \<noteq> []"
    "matches fl JSON_PATTERN (last rel)" by blast
  then show "\<exists>stem. normcase fl (name p) = stem @ ''.json''"
    by (simp add: name_joinpath matches_json)
next
  fix t'
  assume a: "mset (rglob fl root t' JSON_PATTERN) = mset (rglob fl root t JSON_PATTERN)
            \<and> (fl = Posix \<or> inj_on (path_key fl) (set (rglob fl root t JSON_PATTERN)))"
  let ?keep = "\<lambda>json_file. \<not> should_exclude_path json_file"
  from a have inj: "inj_on (path_key fl) (set (rglob fl root t JSON_PATTERN))"
    using posix_key_inj by blast
  have sets: "set (rglob fl root t' JSON_PATTERN) = set (rglob fl root t JSON_PATTERN)"
    using a by (metis set_mset_mset)
  have m: "mset (filter ?keep (rglob fl root t' JSON_PATTERN))
         = mset (filter ?keep (rglob fl root t JSON_PATTERN))"
    using a by (simp add: mset_filter)
  have "inj_on (path_key fl) (set (filter ?keep (rglob fl root t' JSON_PATTERN)))"
    using inj sets by (auto intro: inj_on_subset)
  from sort_key_mset_inj[OF m this]
  show "find_json_files fl root t' = find_json_files fl root t"
    by (simp add: find_json_files_def sorted_paths_def)
qed


theorem find_json_files_sorted_witness:
  "find_json_files Posix sample_root sample_tree = [voc_a, voc_b]
   \<and> sorted (map (path_key Posix) [voc_a, voc_b])
   \<and> (\<exists>stem. normcase Posix (name voc_a) = stem @ ''.json'')
   \<and> mset (rglob Posix sample_root sample_tree_reordered JSON_PATTERN)
       = mset (rglob Posix sample_root sample_tree JSON_PATTERN)
   \<and> find_json_files Posix sample_root sample_tree_reordered = [voc_a, voc_b]"
proof -
  have r: "find_json_files Posix sample_root sample_tree = [voc_a, voc_b]" by code_simp
  have m: "mset (rglob Posix sample_root sample_tree_reordered JSON_PATTERN)
       = mset (rglob Posix sample_root sample_tree JSON_PATTERN)" by code_simp
  note th = find_json_files_sorted[of Posix sample_root sample_tree]
  from th have s: "sorted (map (path_key Posix) [voc_a, voc_b])" by (simp only: r)
  from th r have n: "\<exists>stem. normcase Posix (name voc_a) = stem @ ''.json''" by simp
  from th m have "find_json_files Posix sample_root sample_tree_reordered
                    = find_json_files Posix sample_root sample_tree" by blast
  with r s n m show ?thesis by simp
qed

text \<open>The order is that of the lists of components, not that of the joined strings: \<^verbatim>\<open>a\<close> sorts
  before \<^verbatim>\<open>a-b\<close>, while the string \<^verbatim>\<open>/r/a-b/x.json\<close> is smaller than \<^verbatim>\<open>/r/a/x.json\<close>.\<close>

lemma component_order_is_not_string_order:
  "sorted_paths Posix [\<lparr>anchor = ''/'', tail = [''r'', ''a-b'', ''x.json'']\<rparr>,
                        \<lparr>anchor = ''/'', tail = [''r'', ''a'', ''x.json'']\<rparr>]
     = [\<lparr>anchor = ''/'', tail = [''r'', ''a'', ''x.json'']\<rparr>,
        \<lparr>anchor = ''/'', tail = [''r'', ''a-b'', ''x.json'']\<rparr>]
   \<and> str Posix \<lparr>anchor = ''/'', tail = [''r'', ''a-b'', ''x.json'']\<rparr>
       < str Posix \<lparr>anchor = ''/'', tail = [''r'', ''a'', ''x.json'']\<rparr>"
  by code_simp



subsection \<open>Runs that find nothing\<close>








subsection \<open>The record of one file\<close>

lemma relative_to_joinpath:
  "relative_to fl (joinpath R rel) R = Inr \<lparr>anchor = [], tail = rel\<rparr>"
  by (simp add: relative_to_def joinpath_def Let_def)

lemma rfind_absent: "c \<notin> set xs \<Longrightarrow> rfind c xs = - 1"
  by (induction xs) (auto simp: Let_def)

lemma rfind_last: "c \<notin> set ys \<Longrightarrow> rfind c (xs @ c # ys) = int (length xs)"
  by (induction xs) (auto simp: Let_def rfind_absent)

lemma rfind_bounds: "- 1 \<le> rfind c xs \<and> rfind c xs < int (length xs)"
  by (induction xs) (auto simp: Let_def)

lemma stem_nonempty: "name p \<noteq> [] \<Longrightarrow> stem p \<noteq> []"
  by (auto simp: stem_def Let_def)

lemma stem_extension:
  assumes "name p = s @ ''.'' @ ext" "s \<noteq> []" "ext \<noteq> []" "CHR ''.'' \<notin> set ext"
  shows "stem p = s"
proof -
  have "rfind CHR ''.'' (name p) = int (length s)"
    using assms(1,4) rfind_last[of "CHR ''.''" ext s] by simp
  with assms show ?thesis by (simp add: stem_def Let_def)
qed

lemma with_suffix_empty:
  assumes "name p \<noteq> []"
  shows "with_suffix fl p [] = Inr (p\<lparr>tail := butlast (tail p) @ [stem p]\<rparr>)"
proof -
  let ?n = "name p" and ?i = "rfind CHR ''.'' (name p)"
  have b: "?i < int (length ?n)" using rfind_bounds by blast
  show ?thesis
  proof (cases "0 < ?i \<and> ?i < int (length ?n) - 1")
    case True
    then have "suffix p = drop (nat ?i) ?n" "stem p = take (nat ?i) ?n"
      by (simp_all add: suffix_def stem_def Let_def)
    moreover from True have "nat ?i < length ?n" by linarith
    then have "drop (nat ?i) ?n \<noteq> []" by simp
    moreover from True have "length ?n - (length ?n - nat ?i) = nat ?i" by linarith
    ultimately show ?thesis using assms
      by (cases fl) (simp_all add: with_suffix_def Let_def)
  next
    case False
    then have "suffix p = []" "stem p = ?n" by (auto simp: suffix_def stem_def Let_def)
    then show ?thesis using assms by (cases fl) (simp_all add: with_suffix_def Let_def)
  qed
qed

lemma join_eq_Nil: "join c xs = [] \<longleftrightarrow> xs = [] \<or> xs = [[]]"
  by (induction c xs rule: join.induct) auto

lemma str_relative:
  "st \<noteq> [] \<Longrightarrow> str fl \<lparr>anchor = [], tail = dirs @ [st]\<rparr> = join (sep fl) (dirs @ [st])"
  by (simp add: str_def Let_def join_eq_Nil)

lemma try_extract_dict:
  assumes "load (fs (joinpath R (dirs @ [n]))) = Inr (JDict d)"
    and "mod_time (fs (joinpath R (dirs @ [n]))) = Inr mtime"
    and "n \<noteq> []"
  shows "try_extract fl R fs (joinpath R (dirs @ [n])) =
           Inr [(''id'', JStr (join (sep fl) (dirs @ [stem (joinpath R (dirs @ [n]))]))),
                (''filename'', JStr n),
                (''url'', dict_get d ''url'' (JStr [])),
                (''label'', dict_get d ''label'' (JStr [])),
                (''namespaceUri'', dict_get d ''namespaceUri'' (JStr [])),
                (''prefix'', dict_get d ''prefix'' (JStr [])),
                (''format'', dict_get d ''format'' (JStr [])),
                (''comment'', dict_get d ''comment'' (JStr [])),
                (''last_modified'', JStr mtime)]"
proof -
  let ?rel = "\<lparr>anchor = [], tail = dirs @ [n]\<rparr>"
  have nm: "name ?rel = n" "name (joinpath R (dirs @ [n])) = n"
    by (simp_all add: name_def joinpath_def)
  have st: "stem ?rel = stem (joinpath R (dirs @ [n]))"
    by (simp add: stem_def nm)
  have ws: "with_suffix fl ?rel [] = Inr \<lparr>anchor = [], tail = dirs @ [stem ?rel]\<rparr>"
    using with_suffix_empty[of ?rel fl] assms(3) nm by simp
  have ne: "stem ?rel \<noteq> []" using stem_nonempty[of ?rel] nm assms(3) by simp
  show ?thesis
    unfolding try_extract_def
    by (simp add: assms(1,2) relative_to_joinpath ws str_relative[OF ne] nm st[symmetric])
qed

lemma extract_metadata_dict:
  assumes "load (fs (joinpath R (dirs @ [n]))) = Inr (JDict d)"
    and "mod_time (fs (joinpath R (dirs @ [n]))) = Inr mtime"
    and "n \<noteq> []"
  shows "extract_metadata fl R fs (joinpath R (dirs @ [n])) =
           ([], Inr (Some
              [(''id'', JStr (join (sep fl) (dirs @ [stem (joinpath R (dirs @ [n]))]))),
               (''filename'', JStr n),
               (''url'', dict_get d ''url'' (JStr [])),
               (''label'', dict_get d ''label'' (JStr [])),
               (''namespaceUri'', dict_get d ''namespaceUri'' (JStr [])),
               (''prefix'', dict_get d ''prefix'' (JStr [])),
               (''format'', dict_get d ''format'' (JStr [])),
               (''comment'', dict_get d ''comment'' (JStr [])),
               (''last_modified'', JStr mtime)]))"
  using assms by (simp add: extract_metadata_def try_extract_dict)

lemma try_extract_InrD:
  assumes "try_extract fl R fs p = Inr m"
  shows "\<exists>d mtime. load (fs p) = Inr (JDict d) \<and> mod_time (fs p) = Inr mtime \<and> name p \<noteq> []"
proof -
  from assms obtain data where l: "load (fs p) = Inr data"
    by (cases "load (fs p)") (simp_all add: try_extract_def)
  from assms l obtain rel where r: "relative_to fl p R = Inr rel"
    by (cases "relative_to fl p R") (simp_all add: try_extract_def)
  from assms l r obtain q where w: "with_suffix fl rel [] = Inr q"
    by (cases "with_suffix fl rel []") (simp_all add: try_extract_def)
  from assms l r w obtain mtime where t: "mod_time (fs p) = Inr mtime"
    by (cases "mod_time (fs p)") (simp_all add: try_extract_def Let_def)
  from assms l r w t obtain d where d: "data = JDict d"
    by (cases data) (simp_all add: try_extract_def Let_def)
  from w have "name rel \<noteq> []" by (auto simp: with_suffix_def split: if_splits)
  moreover from r have "tail rel = drop (length (tail R)) (tail p)"
    by (auto simp: relative_to_def Let_def split: if_splits)
  ultimately have "name p \<noteq> []" by (auto simp: name_def split: if_splits)
  with l t d show ?thesis by blast
qed


text \<open>Claim C5, as amended. Whenever \<^const>\<open>extract_metadata\<close> produces a record for a file
  below the repository root, the \<^verbatim>\<open>id\<close> of the record is the path relative to the root with the
  extension taken off the name (\<^verbatim>\<open>pathlib\<close>'s stem: for a name \<^verbatim>\<open>s.ext\<close> with \<^verbatim>\<open>s\<close> not empty,
  \<^verbatim>\<open>s\<close>), its components joined by the separator of the platform: the slash on POSIX, the
  backslash on Windows.\<close>

theorem extract_metadata_id:
  assumes "json_file = joinpath REPO_ROOT (dirs @ [n])"
    and "extract_metadata fl REPO_ROOT fs json_file = (printed, Inr (Some metadata))"
  shows "map_of metadata ''id'' = Some (JStr (join (sep fl) (dirs @ [stem json_file])))
         \<and> (\<forall>s ext. n = s @ ''.'' @ ext \<and> s \<noteq> [] \<and> ext \<noteq> [] \<and> CHR ''.'' \<notin> set ext
                \<longrightarrow> stem json_file = s)
         \<and> sep Posix = CHR ''/'' \<and> sep Windows = CHR 0x5C"
proof -
  have nm: "name json_file = n" using assms(1) by (simp add: name_def joinpath_def)
  from assms(2) have te: "try_extract fl REPO_ROOT fs json_file = Inr metadata"
    by (auto simp: extract_metadata_def split: sum.splits if_splits)
  from try_extract_InrD[OF te] nm obtain d mtime where
    "load (fs json_file) = Inr (JDict d)" "mod_time (fs json_file) = Inr mtime" "n \<noteq> []"
    by auto
  with te assms(1) try_extract_dict[of fs REPO_ROOT dirs n d mtime fl]
  have id: "map_of metadata ''id'' = Some (JStr (join (sep fl) (dirs @ [stem json_file])))"
    by auto
  have "\<forall>s ext. n = s @ ''.'' @ ext \<and> s \<noteq> [] \<and> ext \<noteq> [] \<and> CHR ''.'' \<notin> set ext
          \<longrightarrow> stem json_file = s"
    using stem_extension[of json_file] nm by blast
  with id show ?thesis by simp
qed

theorem extract_metadata_id_witness:
  "voc_a = joinpath sample_root ([''a''] @ [''voc.json''])
   \<and> extract_metadata Posix sample_root sample_files voc_a =
       ([], Inr (Some [(''id'', JStr ''a/voc''), (''filename'', JStr ''voc.json''),
                       (''url'', JStr []), (''label'', JStr ''A''), (''namespaceUri'', JStr []),
                       (''prefix'', JStr []), (''format'', JStr []), (''comment'', JStr []),
                       (''last_modified'', JStr ''2024-05-01T10:00:00'')]))
   \<and> join (sep Posix) ([''a''] @ [stem voc_a]) = ''a/voc''
   \<and> stem voc_a = ''voc''"
proof -
  let ?m = "[(''id'', JStr ''a/voc''), (''filename'', JStr ''voc.json''),
             (''url'', JStr []), (''label'', JStr ''A''), (''namespaceUri'', JStr []),
             (''prefix'', JStr []), (''format'', JStr []), (''comment'', JStr []),
             (''last_modified'', JStr ''2024-05-01T10:00:00'')]"
  have a: "voc_a = joinpath sample_root ([''a''] @ [''voc.json''])" by code_simp
  have b: "extract_metadata Posix sample_root sample_files voc_a = ([], Inr (Some ?m))"
    by code_simp
  note th = extract_metadata_id[where json_file = voc_a and REPO_ROOT = sample_root
      and dirs = "[''a'']" and n = "''voc.json''" and fs = sample_files and fl = Posix, OF a b]
  from th have "map_of ?m ''id'' = Some (JStr (join (sep Posix) ([''a''] @ [stem voc_a])))"
    by blast
  then have c: "join (sep Posix) ([''a''] @ [stem voc_a]) = ''a/voc''" by simp
  from th have "\<forall>s ext. ''voc.json'' = s @ ''.'' @ ext \<and> s \<noteq> [] \<and> ext \<noteq> [] \<and> CHR ''.'' \<notin> set ext
        \<longrightarrow> stem voc_a = s" by blast
  then have d: "stem voc_a = ''voc''" by (rule allE[of _ "''voc''"]) simp
  from a b c d show ?thesis by blast
qed


text \<open>On Windows \<^verbatim>\<open>str\<close> writes backslashes, so the \<^verbatim>\<open>id\<close> of \<^verbatim>\<open>a\voc.json\<close> is \<^verbatim>\<open>a\voc\<close>, not
  \<^verbatim>\<open>a/voc\<close>: the separator of the \<^verbatim>\<open>id\<close> is not the forward slash on every platform.\<close>

theorem extract_metadata_id_counterexample:
  "extract_metadata Windows win_root win_files win_voc_a =
     ([], Inr (Some [(''id'', JStr [CHR ''a'', CHR 0x5C, CHR ''v'', CHR ''o'', CHR ''c'']),
                     (''filename'', JStr ''voc.json''),
                     (''url'', JStr []), (''label'', JStr ''A''), (''namespaceUri'', JStr []),
                     (''prefix'', JStr []), (''format'', JStr []), (''comment'', JStr []),
                     (''last_modified'', JStr ''2024-05-01T10:00:00'')]))
   \<and> [CHR ''a'', CHR 0x5C, CHR ''v'', CHR ''o'', CHR ''c''] \<noteq> ''a/voc''"
  by code_simp

subsection \<open>The six optional fields\<close>

lemma map_of_six:
  assumes "key \<in> {''url'', ''label'', ''namespaceUri'', ''prefix'', ''format'', ''comment''}"
  shows "map_of [(''id'', i), (''filename'', f), (''url'', a), (''label'', b),
                 (''namespaceUri'', c), (''prefix'', p), (''format'', q), (''comment'', r),
                 (''last_modified'', m)] key
         = Some (if key = ''url'' then a else if key = ''label'' then b
                 else if key = ''namespaceUri'' then c else if key = ''prefix'' then p
                 else if key = ''format'' then q else r)"
  using assms by auto

text \<open>Claim C1, as amended. For a file below the repository root that loads as a JSON object
  and whose modification time can be read, \<^const>\<open>extract_metadata\<close> returns a record, prints
  nothing and raises nothing; each of \<^verbatim>\<open>url\<close>, \<^verbatim>\<open>label\<close>, \<^verbatim>\<open>namespaceUri\<close>, \<^verbatim>\<open>prefix\<close>, \<^verbatim>\<open>format\<close> and
  \<^verbatim>\<open>comment\<close> is the value the object holds under that key, whatever its JSON type, and the
  empty string when the key is absent.\<close>

theorem extract_metadata_fields:
  assumes "json_file = joinpath REPO_ROOT (dirs @ [n])" and "n \<noteq> []"
    and "load (fs json_file) = Inr (JDict d)"
    and "mod_time (fs json_file) = Inr mtime"
    and "key \<in> {''url'', ''label'', ''namespaceUri'', ''prefix'', ''format'', ''comment''}"
  shows "\<exists>metadata.
           extract_metadata fl REPO_ROOT fs json_file = ([], Inr (Some metadata))
           \<and> map_of metadata key = Some (case map_of d key of None \<Rightarrow> JStr [] | Some v \<Rightarrow> v)"
proof -
  from assms(1-4) extract_metadata_dict[of fs REPO_ROOT dirs n d mtime fl]
  obtain metadata where m: "extract_metadata fl REPO_ROOT fs json_file = ([], Inr (Some metadata))"
    and md: "metadata = [(''id'', JStr (join (sep fl) (dirs @ [stem json_file]))),
               (''filename'', JStr n),
               (''url'', dict_get d ''url'' (JStr [])),
               (''label'', dict_get d ''label'' (JStr [])),
               (''namespaceUri'', dict_get d ''namespaceUri'' (JStr [])),
               (''prefix'', dict_get d ''prefix'' (JStr [])),
               (''format'', dict_get d ''format'' (JStr [])),
               (''comment'', dict_get d ''comment'' (JStr [])),
               (''last_modified'', JStr mtime)]"
    by simp
  have "map_of metadata key = Some (dict_get d key (JStr []))"
    unfolding md map_of_six[OF assms(5)] using assms(5) by auto
  with m show ?thesis by (auto simp: dict_get_def)
qed

theorem extract_metadata_fields_witness:
  "voc_a = joinpath sample_root ([''a''] @ [''voc.json'']) \<and> ''voc.json'' \<noteq> []
   \<and> load (holding (Inr (JDict [(''url'', JInt 5)])) voc_a) = Inr (JDict [(''url'', JInt 5)])
   \<and> mod_time (holding (Inr (JDict [(''url'', JInt 5)])) voc_a) = Inr ''2024-05-01T10:00:00''
   \<and> ''url'' \<in> {''url'', ''label'', ''namespaceUri'', ''prefix'', ''format'', ''comment''}
   \<and> ''label'' \<in> {''url'', ''label'', ''namespaceUri'', ''prefix'', ''format'', ''comment''}
   \<and> (\<exists>metadata.
         extract_metadata Posix sample_root (holding (Inr (JDict [(''url'', JInt 5)]))) voc_a
           = ([], Inr (Some metadata))
         \<and> map_of metadata ''url'' = Some (JInt 5) \<and> map_of metadata ''label'' = Some (JStr []))"
proof -
  let ?fs = "holding (Inr (JDict [(''url'', JInt 5)]))"
  have a: "voc_a = joinpath sample_root ([''a''] @ [''voc.json''])" by code_simp
  have b: "''voc.json'' \<noteq> []" by simp
  have c: "load (?fs voc_a) = Inr (JDict [(''url'', JInt 5)])" by (simp add: holding_def)
  have d: "mod_time (?fs voc_a) = Inr ''2024-05-01T10:00:00''" by (simp add: holding_def)
  have e: "''url'' \<in> {''url'', ''label'', ''namespaceUri'', ''prefix'', ''format'', ''comment''}"
    by simp
  have f: "''label'' \<in> {''url'', ''label'', ''namespaceUri'', ''prefix'', ''format'', ''comment''}"
    by simp
  note th = extract_metadata_fields[where json_file = voc_a and REPO_ROOT = sample_root
      and dirs = "[''a'']" and n = "''voc.json''" and fs = ?fs and fl = Posix, OF a b c d]
  from th[OF e] th[OF f] have
    "\<exists>metadata.
         extract_metadata Posix sample_root ?fs voc_a = ([], Inr (Some metadata))
         \<and> map_of metadata ''url'' = Some (JInt 5) \<and> map_of metadata ''label'' = Some (JStr [])"
    by auto
  with a b c d e f show ?thesis by blast
qed

text \<open>A file holding a JSON array parses, and \<^const>\<open>extract_metadata\<close> raises AttributeError on
  it, which its handler does not catch; and a \<^verbatim>\<open>url\<close> that is a number is kept as that number,
  not replaced by the empty string.\<close>

theorem extract_metadata_fields_counterexample:
  "load (holding (Inr (JList [])) voc_a) = Inr (JList [])
   \<and> extract_metadata Posix sample_root (holding (Inr (JList []))) voc_a =
     ([], Inl (Exception AttributeError
                 (quoted ''list'' @ '' object has no attribute '' @ quoted ''get'')))
   \<and> extract_metadata Posix sample_root (holding (Inr (JDict [(''url'', JInt 5)]))) voc_a =
     ([], Inr (Some [(''id'', JStr ''a/voc''), (''filename'', JStr ''voc.json''),
                     (''url'', JInt 5), (''label'', JStr []), (''namespaceUri'', JStr []),
                     (''prefix'', JStr []), (''format'', JStr []), (''comment'', JStr []),
                     (''last_modified'', JStr ''2024-05-01T10:00:00'')]))
   \<and> JInt 5 \<noteq> JStr []"
  by code_simp

text \<open>Claim C6, as amended. For a file below the repository root that loads as a JSON object
  with none of the six keys, and whose modification time can be read, \<^const>\<open>extract_metadata\<close>
  returns the record whose six fields are the empty string, whose \<^verbatim>\<open>id\<close> is the relative path
  without the extension, whose \<^verbatim>\<open>filename\<close> is the base name and whose \<^verbatim>\<open>last_modified\<close> is the
  ISO-8601 text of the modification time the file system gave during the scan.\<close>

theorem extract_metadata_no_fields:
  assumes "json_file = joinpath REPO_ROOT (dirs @ [n])" and "n \<noteq> []"
    and "load (fs json_file) = Inr (JDict d)"
    and "\<forall>key \<in> {''url'', ''label'', ''namespaceUri'', ''prefix'', ''format'', ''comment''}.
           map_of d key = None"
    and "mod_time (fs json_file) = Inr mtime"
  shows "extract_metadata fl REPO_ROOT fs json_file =
           ([], Inr (Some [(''id'', JStr (join (sep fl) (dirs @ [stem json_file]))),
                           (''filename'', JStr n),
                           (''url'', JStr []), (''label'', JStr []), (''namespaceUri'', JStr []),
                           (''prefix'', JStr []), (''format'', JStr []), (''comment'', JStr []),
                           (''last_modified'', JStr mtime)]))"
proof -
  from assms(4) have "dict_get d ''url'' (JStr []) = JStr []" "dict_get d ''label'' (JStr []) = JStr []"
    "dict_get d ''namespaceUri'' (JStr []) = JStr []" "dict_get d ''prefix'' (JStr []) = JStr []"
    "dict_get d ''format'' (JStr []) = JStr []" "dict_get d ''comment'' (JStr []) = JStr []"
    by (simp_all add: dict_get_def)
  with assms(1,2,3,5) extract_metadata_dict[of fs REPO_ROOT dirs n d mtime fl]
  show ?thesis by simp
qed

theorem extract_metadata_no_fields_witness:
  "voc_a = joinpath sample_root ([''a''] @ [''voc.json'']) \<and> ''voc.json'' \<noteq> []
   \<and> load (holding (Inr (JDict [(''title'', JStr ''T'')])) voc_a)
        = Inr (JDict [(''title'', JStr ''T'')])
   \<and> map_of [(''title'', JStr ''T'')] ''url'' = None
   \<and> map_of [(''title'', JStr ''T'')] ''label'' = None
   \<and> map_of [(''title'', JStr ''T'')] ''namespaceUri'' = None
   \<and> map_of [(''title'', JStr ''T'')] ''prefix'' = None
   \<and> map_of [(''title'', JStr ''T'')] ''format'' = None
   \<and> map_of [(''title'', JStr ''T'')] ''comment'' = None
   \<and> mod_time (holding (Inr (JDict [(''title'', JStr ''T'')])) voc_a) = Inr ''2024-05-01T10:00:00''
   \<and> extract_metadata Posix sample_root (holding (Inr (JDict [(''title'', JStr ''T'')]))) voc_a =
       ([], Inr (Some [(''id'', JStr ''a/voc''), (''filename'', JStr ''voc.json''),
                       (''url'', JStr []), (''label'', JStr []), (''namespaceUri'', JStr []),
                       (''prefix'', JStr []), (''format'', JStr []), (''comment'', JStr []),
                       (''last_modified'', JStr ''2024-05-01T10:00:00'')]))"
proof -
  let ?fs = "holding (Inr (JDict [(''title'', JStr ''T'')]))"
  have a: "voc_a = joinpath sample_root ([''a''] @ [''voc.json''])" by code_simp
  have b: "''voc.json'' \<noteq> []" by simp
  have c: "load (?fs voc_a) = Inr (JDict [(''title'', JStr ''T'')])" by (simp add: holding_def)
  have k: "\<forall>key \<in> {''url'', ''label'', ''namespaceUri'', ''prefix'', ''format'', ''comment''}.
           map_of [(''title'', JStr ''T'')] key = None" by simp
  have d: "mod_time (?fs voc_a) = Inr ''2024-05-01T10:00:00''" by (simp add: holding_def)
  have s: "join (sep Posix) ([''a''] @ [stem voc_a]) = ''a/voc''" by code_simp
  from extract_metadata_no_fields[where json_file = voc_a and REPO_ROOT = sample_root
      and dirs = "[''a'']" and n = "''voc.json''" and fs = ?fs and fl = Posix, OF a b c k d]
  have "extract_metadata Posix sample_root ?fs voc_a =
       ([], Inr (Some [(''id'', JStr ''a/voc''), (''filename'', JStr ''voc.json''),
                       (''url'', JStr []), (''label'', JStr []), (''namespaceUri'', JStr []),
                       (''prefix'', JStr []), (''format'', JStr []), (''comment'', JStr []),
                       (''last_modified'', JStr ''2024-05-01T10:00:00'')]))"
    by (simp only: s)
  with a b c d show ?thesis by simp
qed

text \<open>A file holding the JSON value \<^verbatim>\<open>null\<close> parses and has none of the six fields, and
  \<^const>\<open>extract_metadata\<close> yields no record for it: it raises AttributeError.\<close>

theorem extract_metadata_no_fields_counterexample:
  "load (holding (Inr JNull) voc_a) = Inr JNull
   \<and> extract_metadata Posix sample_root (holding (Inr JNull)) voc_a =
     ([], Inl (Exception AttributeError
                 (quoted ''NoneType'' @ '' object has no attribute '' @ quoted ''get'')))"
  by code_simp

subsection \<open>Files that cannot be read\<close>

text \<open>An OSError or a JSONDecodeError is caught: the file gives a warning with its path and
  the text of the error, no record, and the loop goes on. Any other exception leaves the
  function.\<close>

lemma extract_metadata_caught:
  assumes "load (fs p) = Inl e" "is_caught e"
  shows "extract_metadata fl R fs p =
           ([''Warning: Could not read '' @ str fl p @ '': '' @ exc_str e], Inr None)"
  using assms by (simp add: extract_metadata_def try_extract_def)

lemma extract_metadata_uncaught:
  assumes "load (fs p) = Inl e" "\<not> is_caught e"
  shows "extract_metadata fl R fs p = ([], Inl e)"
  using assms by (simp add: extract_metadata_def try_extract_def)

lemma extract_each_skips:
  assumes "extract_metadata fl R fs p = (out, Inr None)"
  shows "extract_each fl R fs (p # rest) =
           (case extract_each fl R fs rest of (out', r) \<Rightarrow> (out @ out', r))"
  using assms by (auto split: prod.splits sum.splits)

text \<open>Claim C2. A file that cannot be read or parsed should give a warning and no record while
  the scan goes on. The handler names JSONDecodeError and IOError only: a file whose bytes are
  not UTF-8 makes \<^verbatim>\<open>json.load\<close> raise UnicodeDecodeError, which leaves \<^const>\<open>extract_metadata\<close> and
  ends \<^const>\<open>generate_index\<close> before the output is opened; no warning is printed and no CSV
  written.\<close>

theorem decode_error_escapes:
  "load (holding (Inl not_utf8) voc_a) = Inl not_utf8
   \<and> extract_metadata Posix sample_root (holding (Inl not_utf8)) voc_a = ([], Inl not_utf8)
   \<and> generate_index Posix sample_root (sample_world\<lparr>files := holding (Inl not_utf8)\<rparr>)
        sample_output
      = \<lparr>stdout = [], csvfile = None, raised = Some not_utf8\<rparr>"
  by code_simp

subsection \<open>The rows of the CSV file\<close>

lemma try_extract_keys: "try_extract fl R fs p = Inr m \<Longrightarrow> map fst m = CSV_HEADERS"
  unfolding try_extract_def
  by (auto simp: CSV_HEADERS_def Let_def split: sum.splits json.splits)

lemma extract_metadata_keys:
  "extract_metadata fl R fs p = (out, Inr (Some m)) \<Longrightarrow> map fst m = CSV_HEADERS"
  by (auto simp: extract_metadata_def try_extract_keys split: sum.splits if_splits)

lemma extract_each_keys:
  "extract_each fl R fs ps = (out, Inr records) \<Longrightarrow> \<forall>m \<in> set records. map fst m = CSV_HEADERS"
proof (induction ps arbitrary: out records)
  case Nil
  then show ?case by simp
next
  case (Cons p ps)
  then show ?case
    by (auto split: prod.splits sum.splits option.splits if_splits dest: extract_metadata_keys)
qed

lemma dict_get_keys:
  "distinct (map fst d) \<Longrightarrow> map (\<lambda>key. dict_get d key dflt) (map fst d) = map snd d"
proof (induction d)
  case Nil
  then show ?case by simp
next
  case (Cons kv d)
  obtain k v where kv: "kv = (k, v)" by (cases kv)
  from Cons.prems kv have k: "k \<notin> fst ` set d" and dist: "distinct (map fst d)" by simp_all
  have "map (\<lambda>key. dict_get (kv # d) key dflt) (map fst d)
          = map (\<lambda>key. dict_get d key dflt) (map fst d)"
  proof (rule map_cong[OF refl])
    fix key assume "key \<in> set (map fst d)"
    with k have "key \<noteq> k" by auto
    then show "dict_get (kv # d) key dflt = dict_get d key dflt"
      by (simp add: dict_get_def kv)
  qed
  with Cons.IH[OF dist] show ?case by (simp add: dict_get_def kv)
qed

lemma dict_to_list_record:
  assumes "map fst m = CSV_HEADERS"
  shows "dict_to_list CSV_HEADERS m = Inr (map snd m)"
proof -
  have "distinct CSV_HEADERS" by (simp add: CSV_HEADERS_def)
  with assms dict_get_keys[of m "JStr []"] show ?thesis
    by (simp add: dict_to_list_def)
qed

lemma writerows_records:
  "\<forall>m \<in> set records. map fst m = CSV_HEADERS \<Longrightarrow>
     writerows CSV_HEADERS records = (map (map snd) records, None)"
  by (induction records) (simp_all add: dict_to_list_record)

lemma generate_index_written:
  assumes "csvfile (generate_index fl R w out) = Some rows"
  shows "\<exists>printed records.
           extract_each fl R (files w) (find_json_files fl R (tree w)) = (printed, Inr records)
           \<and> rows = header_row CSV_HEADERS # map (map snd) records
           \<and> (\<forall>m \<in> set records. map fst m = CSV_HEADERS)
           \<and> raised (generate_index fl R w out) = None"
proof -
  obtain printed res where ee:
    "extract_each fl R (files w) (find_json_files fl R (tree w)) = (printed, res)"
    by (cases "extract_each fl R (files w) (find_json_files fl R (tree w))")
  from assms ee obtain records where res: "res = Inr records"
    by (cases res) (auto simp: generate_index_def Let_def split: option.splits)
  from extract_each_keys[OF ee[unfolded res]]
  have keys: "\<forall>m \<in> set records. map fst m = CSV_HEADERS" .
  from writerows_records[OF keys] assms ee res
  have "rows = header_row CSV_HEADERS # map (map snd) records"
    "raised (generate_index fl R w out) = None"
    by (auto simp: generate_index_def Let_def split: option.splits)
  with ee res keys show ?thesis by blast
qed



subsection \<open>Running twice\<close>

lemma try_extract_same:
  assumes "same_but_mtime (fs1 p) (fs2 p)"
  shows "rel_sum (=) (\<lambda>m1 m2. butlast m1 = butlast m2)
           (try_extract fl R fs1 p) (try_extract fl R fs2 p)"
  using assms unfolding try_extract_def same_but_mtime_def
  by (auto simp: Let_def split: sum.splits json.splits)

lemma extract_metadata_same:
  assumes "same_but_mtime (fs1 p) (fs2 p)"
  shows "rel_prod (=) (rel_sum (=) (rel_option (\<lambda>m1 m2. butlast m1 = butlast m2)))
           (extract_metadata fl R fs1 p) (extract_metadata fl R fs2 p)"
  using try_extract_same[where ?fs1.0 = fs1 and ?fs2.0 = fs2 and p = p and fl = fl and R = R] assms
  by (cases "try_extract fl R fs1 p"; cases "try_extract fl R fs2 p")
     (auto simp: extract_metadata_def)

lemma extract_each_same:
  assumes "\<And>p. same_but_mtime (fs1 p) (fs2 p)"
  shows "rel_prod (=) (rel_sum (=) (list_all2 (\<lambda>m1 m2. butlast m1 = butlast m2)))
           (extract_each fl R fs1 ps) (extract_each fl R fs2 ps)"
proof (induction ps)
  case Nil
  show ?case by simp
next
  case (Cons p ps)
  obtain o1 r1 where e1: "extract_metadata fl R fs1 p = (o1, r1)" by (cases "extract_metadata fl R fs1 p")
  obtain o2 r2 where e2: "extract_metadata fl R fs2 p = (o2, r2)" by (cases "extract_metadata fl R fs2 p")
  obtain o1' r1' where t1: "extract_each fl R fs1 ps = (o1', r1')" by (cases "extract_each fl R fs1 ps")
  obtain o2' r2' where t2: "extract_each fl R fs2 ps = (o2', r2')" by (cases "extract_each fl R fs2 ps")
  from extract_metadata_same[where ?fs1.0 = fs1 and ?fs2.0 = fs2 and p = p and fl = fl and R = R]
    assms[of p] e1 e2
  have h: "o1 = o2" "rel_sum (=) (rel_option (\<lambda>m1 m2. butlast m1 = butlast m2)) r1 r2" by simp_all
  from Cons.IH t1 t2
  have t: "o1' = o2'" "rel_sum (=) (list_all2 (\<lambda>m1 m2. butlast m1 = butlast m2)) r1' r2'" by simp_all
  have ne: "m \<noteq> []" if "r1 = Inr (Some m) \<or> r2 = Inr (Some m)" for m
    using that e1 e2 extract_metadata_keys[of fl R fs1 p o1 m] extract_metadata_keys[of fl R fs2 p o2 m]
    by (auto simp: CSV_HEADERS_def)
  show ?case
  proof (cases r1)
    case (Inl e)
    with h show ?thesis by (cases r2) (simp_all add: e1 e2)
  next
    case r1: (Inr a)
    with h(2) obtain b where r2: "r2 = Inr b" and ab: "rel_option (\<lambda>m1 m2. butlast m1 = butlast m2) a b"
      by (cases r2) simp_all
    show ?thesis
    proof (cases r1')
      case (Inl e)
      with t show ?thesis by (cases r2') (simp_all add: e1 e2 t1 t2 r1 r2 h)
    next
      case l1: (Inr xs)
      with t(2) obtain ys where l2: "r2' = Inr ys"
        and xy: "list_all2 (\<lambda>m1 m2. butlast m1 = butlast m2) xs ys"
        by (cases r2') simp_all
      show ?thesis
      proof (cases a)
        case None
        with ab have "b = None" by (cases b) simp_all
        with None xy show ?thesis by (simp add: e1 e2 t1 t2 r1 r2 l1 l2 h t)
      next
        case (Some m1)
        with ab obtain m2 where b: "b = Some m2" and m: "butlast m1 = butlast m2"
          by (cases b) simp_all
        from ne[of m1] ne[of m2] r1 r2 Some b have "m1 \<noteq> []" "m2 \<noteq> []" by simp_all
        with Some b m xy show ?thesis by (simp add: e1 e2 t1 t2 r1 r2 l1 l2 h t)
      qed
    qed
  qed
qed

lemma butlast_rows:
  assumes "list_all2 (\<lambda>m1 m2. butlast m1 = butlast m2) xs ys"
  shows "map butlast (map (map snd) xs) = map butlast (map (map snd) ys)"
    and "length xs = length ys"
proof -
  from assms show "length xs = length ys" by (rule list_all2_lengthD)
  from assms have "map butlast xs = map butlast ys"
    by (induction rule: list_all2_induct) simp_all
  then have "map (map snd) (map butlast xs) = map (map snd) (map butlast ys)" by simp
  then show "map butlast (map (map snd) xs) = map butlast (map (map snd) ys)"
    by (simp add: map_butlast comp_def)
qed

lemma generate_index_same:
  assumes "tree w2 = tree w1" "mkdir_raises w2 = mkdir_raises w1" "open_raises w2 = open_raises w1"
    and same: "\<And>p. same_but_mtime (files w1 p) (files w2 p)"
  shows "stdout (generate_index fl R w2 out) = stdout (generate_index fl R w1 out)
         \<and> raised (generate_index fl R w2 out) = raised (generate_index fl R w1 out)
         \<and> map_option (map butlast) (csvfile (generate_index fl R w2 out))
             = map_option (map butlast) (csvfile (generate_index fl R w1 out))"
proof -
  let ?ps = "find_json_files fl R (tree w1)"
  obtain o1 r1 where e1: "extract_each fl R (files w1) ?ps = (o1, r1)"
    by (cases "extract_each fl R (files w1) ?ps")
  obtain o2 r2 where e2: "extract_each fl R (files w2) ?ps = (o2, r2)"
    by (cases "extract_each fl R (files w2) ?ps")
  from extract_each_same[where ?fs1.0 = "files w1" and ?fs2.0 = "files w2" and ps = ?ps
      and fl = fl and R = R] same e1 e2
  have h: "o1 = o2" "rel_sum (=) (list_all2 (\<lambda>m1 m2. butlast m1 = butlast m2)) r1 r2"
    by simp_all
  show ?thesis
  proof (cases r1)
    case (Inl e)
    with h have "r2 = Inl e" by (cases r2) simp_all
    with Inl h(1) e1 e2 assms(1-3) show ?thesis
      by (simp add: generate_index_def Let_def split: option.splits)
  next
    case (Inr xs)
    with h(2) obtain ys where r2: "r2 = Inr ys"
      and xy: "list_all2 (\<lambda>m1 m2. butlast m1 = butlast m2) xs ys"
      by (cases r2) simp_all
    from extract_each_keys[OF e1[unfolded Inr]] extract_each_keys[OF e2[unfolded r2]]
    have w: "writerows CSV_HEADERS xs = (map (map snd) xs, None)"
      "writerows CSV_HEADERS ys = (map (map snd) ys, None)"
      by (simp_all add: writerows_records)
    from butlast_rows[OF xy] Inr r2 h(1) e1 e2 assms(1-3) w show ?thesis
      by (simp add: generate_index_def Let_def split: option.splits)
  qed
qed

lemma generate_index_row_length:
  assumes "csvfile (generate_index fl R w out) = Some rows" "row \<in> set rows"
  shows "length row = 9"
proof -
  from generate_index_written[OF assms(1)] obtain printed records where
    "rows = header_row CSV_HEADERS # map (map snd) records"
    "\<forall>m \<in> set records. map fst m = CSV_HEADERS" by blast
  moreover have "length m = 9" if "map fst m = CSV_HEADERS" for m :: pydict
    using arg_cong[OF that, of length] by (simp add: CSV_HEADERS_def)
  ultimately show ?thesis using assms(2)
    by (auto simp: header_row_def CSV_HEADERS_def)
qed

text \<open>Claim C9. Two runs over the same tree and the same file contents, which differ at most
  in the modification times the file system reports, print the same lines, end the same way
  and write CSV files that agree in every column but the last, \<^verbatim>\<open>last_modified\<close> (each row has
  nine cells, so dropping the last cell leaves the eight other columns); when the modification
  times are the same as well, the two runs are identical. Nothing else varies between runs:
  the script reads no clock and no random source, tests \<^verbatim>\<open>EXCLUDE_DIRS\<close> by membership only,
  and sorts what the directory enumeration yields.\<close>

theorem rerun_same_but_last_modified:
  assumes "tree w2 = tree w1"
    and "mkdir_raises w2 = mkdir_raises w1" and "open_raises w2 = open_raises w1"
    and "\<And>p. same_but_mtime (files w1 p) (files w2 p)"
  shows "stdout (generate_index fl REPO_ROOT w2 output_file)
           = stdout (generate_index fl REPO_ROOT w1 output_file)
         \<and> raised (generate_index fl REPO_ROOT w2 output_file)
           = raised (generate_index fl REPO_ROOT w1 output_file)
         \<and> map_option (map butlast) (csvfile (generate_index fl REPO_ROOT w2 output_file))
           = map_option (map butlast) (csvfile (generate_index fl REPO_ROOT w1 output_file))
         \<and> (\<forall>rows. csvfile (generate_index fl REPO_ROOT w1 output_file) = Some rows
               \<longrightarrow> (\<forall>row \<in> set rows. length row = 9 \<and> length (butlast row) = 8))
         \<and> ((\<forall>p. mod_time (files w2 p) = mod_time (files w1 p))
               \<longrightarrow> generate_index fl REPO_ROOT w2 output_file
                     = generate_index fl REPO_ROOT w1 output_file)"
proof -
  have len: "\<forall>rows. csvfile (generate_index fl REPO_ROOT w1 output_file) = Some rows
               \<longrightarrow> (\<forall>row \<in> set rows. length row = 9 \<and> length (butlast row) = 8)"
    using generate_index_row_length[of fl REPO_ROOT w1 output_file] by auto
  have eq: "generate_index fl REPO_ROOT w2 output_file = generate_index fl REPO_ROOT w1 output_file"
    if m: "\<forall>p. mod_time (files w2 p) = mod_time (files w1 p)"
  proof -
    have "files w2 p = files w1 p" for p
      using assms(4)[of p] m by (simp add: same_but_mtime_def)
    then have f: "files w2 = files w1" by (rule ext)
    show ?thesis by (simp only: generate_index_def assms(1-3) f)
  qed
  from generate_index_same[OF assms(1-3), of fl REPO_ROOT output_file] assms(4) len eq
  show ?thesis by blast
qed

theorem rerun_same_but_last_modified_witness:
  "tree (sample_world\<lparr>files := sample_files_touched\<rparr>) = tree sample_world
   \<and> mkdir_raises (sample_world\<lparr>files := sample_files_touched\<rparr>) = mkdir_raises sample_world
   \<and> open_raises (sample_world\<lparr>files := sample_files_touched\<rparr>) = open_raises sample_world
   \<and> same_but_mtime (sample_files voc_a) (sample_files_touched voc_a)
   \<and> mod_time (sample_files voc_a) \<noteq> mod_time (sample_files_touched voc_a)
   \<and> csvfile (generate_index Posix sample_root sample_world sample_output)
      \<noteq> csvfile (generate_index Posix sample_root (sample_world\<lparr>files := sample_files_touched\<rparr>)
            sample_output)
   \<and> map_option (map butlast)
        (csvfile (generate_index Posix sample_root (sample_world\<lparr>files := sample_files_touched\<rparr>)
            sample_output))
      = Some [[JStr ''id'', JStr ''filename'', JStr ''url'', JStr ''label'', JStr ''namespaceUri'',
               JStr ''prefix'', JStr ''format'', JStr ''comment''],
              [JStr ''a/voc'', JStr ''voc.json'', JStr [], JStr ''A'', JStr [], JStr [], JStr [],
               JStr []],
              [JStr ''b/voc'', JStr ''voc.json'', JStr [], JStr ''B'', JStr [], JStr [], JStr [],
               JStr []]]"
proof -
  let ?w2 = "sample_world\<lparr>files := sample_files_touched\<rparr>"
  have a: "tree ?w2 = tree sample_world" by simp
  have b: "mkdir_raises ?w2 = mkdir_raises sample_world" by simp
  have c: "open_raises ?w2 = open_raises sample_world" by simp
  have d: "same_but_mtime (files sample_world p) (files ?w2 p)" for p
    by (simp add: sample_world_def sample_files_def sample_files_touched_def same_but_mtime_def
        missing_def)
  have e: "same_but_mtime (sample_files voc_a) (sample_files_touched voc_a)"
    using d[of voc_a] by (simp add: sample_world_def)
  have f: "mod_time (sample_files voc_a) \<noteq> mod_time (sample_files_touched voc_a)"
    by (simp add: sample_files_def sample_files_touched_def)
  have g: "csvfile (generate_index Posix sample_root sample_world sample_output)
      \<noteq> csvfile (generate_index Posix sample_root ?w2 sample_output)"
    by code_simp
  have h: "map_option (map butlast)
        (csvfile (generate_index Posix sample_root sample_world sample_output))
      = Some [[JStr ''id'', JStr ''filename'', JStr ''url'', JStr ''label'', JStr ''namespaceUri'',
               JStr ''prefix'', JStr ''format'', JStr ''comment''],
              [JStr ''a/voc'', JStr ''voc.json'', JStr [], JStr ''A'', JStr [], JStr [], JStr [],
               JStr []],
              [JStr ''b/voc'', JStr ''voc.json'', JStr [], JStr ''B'', JStr [], JStr [], JStr [],
               JStr []]]"
    by code_simp
  from rerun_same_but_last_modified[where ?w1.0 = sample_world and ?w2.0 = ?w2 and fl = Posix
      and REPO_ROOT = sample_root and output_file = sample_output, OF a b c d]
  have "map_option (map butlast) (csvfile (generate_index Posix sample_root ?w2 sample_output))
      = map_option (map butlast) (csvfile (generate_index Posix sample_root sample_world sample_output))"
    by blast
  with a b c e f g h show ?thesis by (simp only: simp_thms)
qed

end
